theory Spec2Isabelle
  imports Complex_Main "HOL-Library.Sublist"
begin

section \<open>Tokens\<close>

text \<open>
  The token kinds are the same enumeration in every variant.  A token of \<^verbatim>\<open>pyson3.py\<close> is
  a kind with a half-open span \<^verbatim>\<open>(start, end)\<close> of offsets into the source text; a token
  of the first variant \<^verbatim>\<open>pyson.py\<close> is a kind with an optional copied text
  \<^verbatim>\<open>value: str | None\<close>.
\<close>

datatype TokenType =
    L_CURLY | R_CURLY | L_BRACKET | R_BRACKET | COLON | COMMA
  | STRING | NUMBER | BOOLEAN | NULL

record Token =
  ttype :: TokenType
  tstart :: nat
  tend :: nat

definition Tok :: "TokenType \<Rightarrow> nat \<Rightarrow> nat \<Rightarrow> Token" where
  "Tok ty s e = \<lparr>ttype = ty, tstart = s, tend = e\<rparr>"

record Token1 =
  ttype1 :: TokenType
  tvalue :: "string option"

definition Tok1 :: "TokenType \<Rightarrow> string option \<Rightarrow> Token1" where
  "Tok1 ty v = \<lparr>ttype1 = ty, tvalue = v\<rparr>"

section \<open>Python exceptions and built-ins used by the decoder\<close>

text \<open>
  The decoder signals every failure by a Python exception.  An exception is a value of
  type \<open>error\<close>; a function that may raise returns \<open>error + 'a\<close> with \<open>Inl\<close> for the
  exception.

  A \<open>ValueError\<close> carries its message.  The lexer and the built-ins raise it with a plain
  text (\<open>Plain\<close>).  \<^verbatim>\<open>Parser._error\<close> builds its text with the f-string
  \<^verbatim>\<open>f"{msg}, {prior_tokens=}, {self.i=}, value={self.tokens[self.i]}"\<close>; the model keeps
  the four interpolated fields apart (\<open>Context msg prior_tokens i value\<close>) instead of
  rendering them to characters.  A token shown in a message is a span token of
  \<^verbatim>\<open>pyson3.py\<close> (\<open>Span\<close>) or a token of \<^verbatim>\<open>pyson.py\<close> that owns its text (\<open>Owned\<close>).
\<close>

datatype token_repr = Span Token | Owned Token1

datatype message = Plain string | Context string "token_repr list" int token_repr

datatype error =
    ValueError message
  | IndexError
  | AttributeError
  | OverflowError
  | AssertionError

text \<open>Subscripting \<^verbatim>\<open>xs[i]\<close> with a non-negative index: out of range raises IndexError.\<close>

definition py_index :: "'a list \<Rightarrow> nat \<Rightarrow> error + 'a" where
  "py_index xs i = (if i < length xs then Inr (xs ! i) else Inl IndexError)"

text \<open>
  Slicing \<^verbatim>\<open>xs[a:b]\<close>: a negative bound counts from the end, and both bounds are clamped
  to the list, so a slice never raises.
\<close>

definition py_bound :: "nat \<Rightarrow> int \<Rightarrow> nat" where
  "py_bound n a = (if a < 0 then nat (max 0 (a + int n)) else min n (nat a))"

definition py_slice :: "'a list \<Rightarrow> int \<Rightarrow> int \<Rightarrow> 'a list" where
  "py_slice xs a b =
     (let lo = py_bound (length xs) a; hi = py_bound (length xs) b
      in take (hi - lo) (drop lo xs))"

text \<open>The same slice when both bounds are known to be non-negative.\<close>

definition substr :: "'a list \<Rightarrow> nat \<Rightarrow> nat \<Rightarrow> 'a list" where
  "substr xs a b = take (b - a) (drop a xs)"

text \<open>
  \<^verbatim>\<open>s.replace(old, new)\<close>: every non-overlapping occurrence of \<open>old\<close>, found from the
  left, is replaced; an empty \<open>old\<close> matches before every character and at the end.
\<close>

fun py_replace :: "string \<Rightarrow> string \<Rightarrow> string \<Rightarrow> string" where
  "py_replace old new [] = (if old = [] then new else [])"
| "py_replace old new (c # cs) =
     (if old = [] then new @ c # py_replace old new cs
      else if prefix old (c # cs) then new @ py_replace old new (drop (length old - 1) cs)
      else c # py_replace old new cs)"

text \<open>
  \<^verbatim>\<open>s.split(sep)\<close>: an empty separator raises \<^verbatim>\<open>ValueError("empty separator")\<close>;
  otherwise the text is cut at every occurrence of the separator.
\<close>

fun split_at :: "string \<Rightarrow> string \<Rightarrow> string \<Rightarrow> string list" where
  "split_at sep cur [] = [cur]"
| "split_at sep cur (c # cs) =
     (if prefix sep (c # cs) then cur # split_at sep [] (drop (length sep - 1) cs)
      else split_at sep (cur @ [c]) cs)"

definition py_split :: "string \<Rightarrow> string \<Rightarrow> error + string list" where
  "py_split s sep =
     (if sep = [] then Inl (ValueError (Plain ''empty separator''))
      else Inr (split_at sep [] s))"

section \<open>Character tables\<close>

definition HEXDIGITS :: "string set" where
  "HEXDIGITS = (\<lambda>c. [c]) ` set ''0123456789abcdefABCDEF''"

definition NUMERIC :: "char set" where
  "NUMERIC = set ''0123456789.eE+-''"

section \<open>The lexer\<close>

text \<open>
  The inner loop of the number case, \<^verbatim>\<open>while json[i] in NUMERIC: i += 1\<close>.  The subscript
  is not guarded: when the run of numeric characters reaches the end of the text the
  loop reads \<^verbatim>\<open>json[len(json)]\<close> and raises IndexError.
\<close>

function lex_number :: "string \<Rightarrow> nat \<Rightarrow> error + nat" where
  "lex_number json i =
     (if i < length json
      then (if json ! i \<in> NUMERIC then lex_number json (i + 1) else Inr i)
      else Inl IndexError)"
  by pat_completeness auto
termination lex_number
  by (relation "measure (\<lambda>(json, i). length json - i)") auto

text \<open>
  The unicode branch of the string scan: the four characters after \<^verbatim>\<open>\u\<close> are cut out,
  \<^verbatim>\<open>unicodes.split("")\<close> is unpacked into four names, and each must be in HEXDIGITS.
  Unpacking a list whose length is not four raises a ValueError as well.
\<close>

definition lex_unicode :: "string \<Rightarrow> nat \<Rightarrow> error + nat" where
  "lex_unicode json idx =
     (let unicodes = substr json (idx + 2) (idx + 6) in
      case py_split unicodes [] of
        Inl e \<Rightarrow> Inl e
      | Inr parts \<Rightarrow>
          (if length parts \<noteq> 4 then Inl (ValueError (Plain ''unpack''))
           else if \<not> list_all (\<lambda>hx. hx \<in> HEXDIGITS) parts
           then Inl (ValueError (Plain ''Invalid unicode sequence''))
           else Inr (idx + 6)))"

text \<open>
  The string scan \<^verbatim>\<open>while json: v = json[idx] ...\<close>, entered with \<open>idx\<close> just after the
  opening quote.  It returns the index just after the closing quote.  Both subscripts
  \<^verbatim>\<open>json[idx]\<close> and \<^verbatim>\<open>json[idx + 1]\<close> are unguarded.
\<close>

function lex_string :: "string \<Rightarrow> nat \<Rightarrow> error + nat" where
  "lex_string json idx =
     (if idx < length json then
        (let v = json ! idx in
         if v = CHR 0x22 then Inr (idx + 1)
         else if v = CHR 0x5C then
           (if idx + 1 < length json then
              (let n = json ! (idx + 1) in
               if n \<in> {CHR 0x22, CHR 0x5C, CHR ''/'', CHR ''b'', CHR ''f'', CHR ''n'',
                       CHR ''r'', CHR ''t''}
               then lex_string json (idx + 2)
               else if n = CHR ''u'' then
                 (case lex_unicode json idx of
                    Inl e \<Rightarrow> Inl e
                  | Inr idx' \<Rightarrow> lex_string json idx')
               else Inl (ValueError (Plain ''Invalid string escaping'')))
            else Inl IndexError)
         else lex_string json (idx + 1))
      else Inl IndexError)"
  by pat_completeness auto

lemma lex_unicode_result: "lex_unicode json idx = Inr idx' \<Longrightarrow> idx' = idx + 6"
  by (auto simp: lex_unicode_def Let_def split: sum.splits if_splits)

termination lex_string
  by (relation "measure (\<lambda>(json, idx). length json - idx)")
     (auto dest!: lex_unicode_result)

declare lex_number.simps [simp del] lex_string.simps [simp del]

lemma lex_string_result: "lex_string json idx = Inr idx' \<Longrightarrow> idx < idx'"
proof (induction json idx arbitrary: idx' rule: lex_string.induct)
  case (1 json idx)
  from "1.prems" have inb: "idx < length json"
    by (subst (asm) lex_string.simps) (simp split: if_splits)
  show ?case
  proof (cases "json ! idx = CHR 0x22")
    case True
    with "1.prems" inb show ?thesis
      by (subst (asm) lex_string.simps) simp
  next
    case nq: False
    show ?thesis
    proof (cases "json ! idx = CHR 0x5C")
      case False
      with "1.prems" inb nq have "lex_string json (idx + 1) = Inr idx'"
        by (subst (asm) lex_string.simps) simp
      from "1.IH"(3)[OF inb refl nq False this] show ?thesis by simp
    next
      case bs: True
      from "1.prems" inb nq bs have inb2: "idx + 1 < length json"
        by (subst (asm) lex_string.simps) (simp split: if_splits)
      show ?thesis
      proof (cases "json ! (idx + 1) \<in> {CHR 0x22, CHR 0x5C, CHR ''/'', CHR ''b'', CHR ''f'',
                       CHR ''n'', CHR ''r'', CHR ''t''}")
        case True
        with "1.prems" inb nq bs inb2 have "lex_string json (idx + 2) = Inr idx'"
          by (subst (asm) lex_string.simps) simp
        from "1.IH"(1)[OF inb refl nq bs inb2 refl True this] show ?thesis by simp
      next
        case False
        with "1.prems" inb nq bs inb2 obtain k where
          u: "json ! (idx + 1) = CHR ''u''" and k: "lex_unicode json idx = Inr k"
          and r: "lex_string json k = Inr idx'"
          by (subst (asm) lex_string.simps) (auto split: if_splits sum.splits)
        from "1.IH"(2)[OF inb refl nq bs inb2 refl False u k r] lex_unicode_result[OF k]
        show ?thesis by simp
      qed
    qed
  qed
qed

lemma lex_number_result:
  "lex_number json i = Inr j \<Longrightarrow> i \<le> j \<and> (i < length json \<and> json ! i \<in> NUMERIC \<longrightarrow> i < j)"
proof (induction json i rule: lex_number.induct)
  case (1 json i)
  then show ?case
    by (subst (asm) (2) lex_number.simps) (auto split: if_splits)
qed

text \<open>
  The main loop \<^verbatim>\<open>while i < total_len\<close> of \<^verbatim>\<open>lex\<close>, with the cursor \<open>i\<close> and the
  token list built so far.  The cases are tried in the order of the \<^verbatim>\<open>match\<close> statement.
\<close>

function lex_loop :: "string \<Rightarrow> nat \<Rightarrow> Token list \<Rightarrow> error + Token list" where
  "lex_loop json i tokens =
     (if i < length json then
        (let v = json ! i in
         if v = CHR ''{'' then lex_loop json (i + 1) (tokens @ [Tok L_CURLY i (i + 1)])
         else if v = CHR ''}'' then lex_loop json (i + 1) (tokens @ [Tok R_CURLY i (i + 1)])
         else if v = CHR ''['' then lex_loop json (i + 1) (tokens @ [Tok L_BRACKET i (i + 1)])
         else if v = CHR '']'' then lex_loop json (i + 1) (tokens @ [Tok R_BRACKET i (i + 1)])
         else if v = CHR '':'' then lex_loop json (i + 1) (tokens @ [Tok COLON i (i + 1)])
         else if v = CHR '','' then lex_loop json (i + 1) (tokens @ [Tok COMMA i (i + 1)])
         else if v = CHR ''t'' then
           (if substr json i (i + 4) \<noteq> ''true''
            then Inl (ValueError (Plain ''Invalid true value''))
            else lex_loop json (i + 4) (tokens @ [Tok BOOLEAN i (i + 4)]))
         else if v = CHR ''f'' then
           (if substr json i (i + 5) \<noteq> ''false''
            then Inl (ValueError (Plain ''Invalid false value''))
            else lex_loop json (i + 5) (tokens @ [Tok BOOLEAN i (i + 5)]))
         else if v = CHR ''n'' then
           (if substr json i (i + 4) \<noteq> ''null''
            then Inl (ValueError (Plain ''Invalid null value''))
            else lex_loop json (i + 4) (tokens @ [Tok NULL i (i + 4)]))
         else if v = CHR 0x22 then
           (case lex_string json (i + 1) of
              Inl e \<Rightarrow> Inl e
            | Inr idx \<Rightarrow> lex_loop json idx (tokens @ [Tok STRING i idx]))
         else if v \<in> NUMERIC then
           (case lex_number json i of
              Inl e \<Rightarrow> Inl e
            | Inr j \<Rightarrow> lex_loop json j (tokens @ [Tok NUMBER i j]))
         else lex_loop json (i + 1) tokens)
      else Inr tokens)"
  by pat_completeness auto
termination lex_loop
  by (relation "measure (\<lambda>(json, i, tokens). length json - i)")
     (auto dest: lex_string_result lex_number_result)

declare lex_loop.simps [simp del]

definition lex :: "string \<Rightarrow> error + Token list" where
  "lex json = lex_loop json 0 []"

section \<open>The built-ins float and int\<close>

text \<open>
  A Python float is an IEEE binary64 value.  A finite one is kept as its sign and the exact
  rational magnitude it denotes (so the negative zero is \<open>Finite True 0\<close>); an infinity
  keeps its sign.  No text of a Number token converts to a NaN.
\<close>

datatype pyfloat = Finite bool rat | Infinite bool

text \<open>
  Only the text of a Number token reaches \<^verbatim>\<open>float\<close> in this program, a run of characters
  of NUMERIC.  Over these characters \<^verbatim>\<open>float\<close> accepts an optional sign, decimal digits
  with an optional point (at least one digit before or after it), and an optional
  exponent \<^verbatim>\<open>e\<close> or \<^verbatim>\<open>E\<close> with an optional sign and at least one digit.
  \<open>float_literal\<close> returns the sign, the digits \<open>m\<close> of the mantissa read as a natural
  number and the decimal exponent \<open>e\<close>: the literal denotes \<open>m * 10 ^ e\<close>.
\<close>

definition is_digit :: "char \<Rightarrow> bool" where
  "is_digit c = (c \<in> set ''0123456789'')"

definition digit_val :: "char \<Rightarrow> nat" where
  "digit_val c = of_char c - 48"

definition digits_val :: "string \<Rightarrow> nat" where
  "digits_val ds = foldl (\<lambda>n c. 10 * n + digit_val c) 0 ds"

definition take_sign :: "string \<Rightarrow> bool \<times> string" where
  "take_sign s =
     (case s of
        [] \<Rightarrow> (False, [])
      | c # cs \<Rightarrow> if c = CHR ''-'' then (True, cs)
                 else if c = CHR ''+'' then (False, cs) else (False, s))"

definition take_fraction :: "string \<Rightarrow> string \<times> string" where
  "take_fraction s =
     (case s of
        [] \<Rightarrow> ([], [])
      | c # cs \<Rightarrow> if c = CHR ''.'' then (takeWhile is_digit cs, dropWhile is_digit cs)
                 else ([], s))"

definition take_exponent :: "string \<Rightarrow> int option" where
  "take_exponent s =
     (case s of
        [] \<Rightarrow> Some 0
      | c # cs \<Rightarrow>
          if c = CHR ''e'' \<or> c = CHR ''E'' then
            (let (eneg, ds) = take_sign cs in
             if ds \<noteq> [] \<and> list_all is_digit ds
             then Some (if eneg then - int (digits_val ds) else int (digits_val ds))
             else None)
          else None)"

definition float_literal :: "string \<Rightarrow> (bool \<times> nat \<times> int) option" where
  "float_literal s =
     (let (neg, s1) = take_sign s;
          ip = takeWhile is_digit s1;
          (fp, s3) = take_fraction (dropWhile is_digit s1)
      in if ip @ fp = [] then None
         else case take_exponent s3 of
                None \<Rightarrow> None
              | Some e \<Rightarrow> Some (neg, digits_val (ip @ fp), e - int (length fp)))"

text \<open>
  Rounding the positive rational \<open>p / q\<close> to the nearest binary64 value, ties to even, as
  the correctly rounded conversion of \<^verbatim>\<open>float\<close> does.  \<open>e\<close> is the binary exponent of
  \<open>p / q\<close> (\<open>2 ^ e \<le> p / q < 2 ^ (e + 1)\<close>), \<open>sh\<close> the exponent of the unit in the last
  place (53 significant bits, and never below \<open>2 ^ -1074\<close>, which gives the subnormal
  numbers and the underflow to zero).  A result of \<open>2 ^ 1024\<close> or more overflows: \<open>None\<close>.
\<close>

fun bit_length :: "nat \<Rightarrow> nat" where
  "bit_length n = (if n = 0 then 0 else Suc (bit_length (n div 2)))"

declare bit_length.simps [simp del]

definition round_half_even :: "nat \<Rightarrow> nat \<Rightarrow> nat" where
  "round_half_even p q =
     (let m = p div q; r = p mod q
      in if q < 2 * r \<or> (2 * r = q \<and> odd m) then m + 1 else m)"

definition binary64 :: "nat \<Rightarrow> nat \<Rightarrow> rat option" where
  "binary64 p q =
     (if p = 0 then Some 0
      else
        let k = int (bit_length p) - int (bit_length q);
            e = (if q * 2 ^ nat k \<le> p * 2 ^ nat (- k) then k else k - 1);
            sh = max e (- 1022) - 52;
            m = round_half_even (p * 2 ^ nat (- sh)) (q * 2 ^ nat sh)
        in if 0 \<le> sh \<and> 2 ^ 1024 \<le> m * 2 ^ nat sh then None
           else Some (of_nat (m * 2 ^ nat sh) / of_nat (2 ^ nat (- sh))))"

text \<open>
  \<^verbatim>\<open>float(string)\<close>: a text outside the grammar raises
  \<^verbatim>\<open>ValueError("could not convert string to float: '...'")\<close>; a value too large becomes
  an infinity.
\<close>

definition py_float :: "string \<Rightarrow> error + pyfloat" where
  "py_float s =
     (case float_literal s of
        None \<Rightarrow>
          Inl (ValueError (Plain (''could not convert string to float: '' @ [CHR 0x27] @ s
                                   @ [CHR 0x27])))
      | Some (neg, m, e) \<Rightarrow>
          (case binary64 (m * 10 ^ nat e) (10 ^ nat (- e)) of
             None \<Rightarrow> Inr (Infinite neg)
           | Some r \<Rightarrow> Inr (Finite neg r)))"

text \<open>
  \<^verbatim>\<open>int(as_float)\<close> truncates towards zero; an infinity raises OverflowError.
\<close>

definition py_int :: "pyfloat \<Rightarrow> error + int" where
  "py_int f =
     (case f of
        Infinite neg \<Rightarrow> Inl OverflowError
      | Finite neg r \<Rightarrow> Inr (if neg then - \<lfloor>r\<rfloor> else \<lfloor>r\<rfloor>))"

section \<open>Values and the parser of pyson3.py\<close>

text \<open>
  \<^verbatim>\<open>Value = Union[str, int, float, Array, Object, None, True, False]\<close>.  An object is a
  Python dict; it is kept as the list of its items in insertion order, and
  \<^verbatim>\<open>result[key] = value\<close> is \<open>dict_set\<close>.
\<close>

datatype pyvalue =
    VStr string
  | VInt int
  | VFloat pyfloat
  | VBool bool
  | VNone
  | VArray "pyvalue list"
  | VObject "(string \<times> pyvalue) list"

fun dict_set :: "('k \<times> 'v) list \<Rightarrow> 'k \<Rightarrow> 'v \<Rightarrow> ('k \<times> 'v) list" where
  "dict_set [] k v = [(k, v)]"
| "dict_set ((k', v') # kvs) k v =
     (if k' = k then (k, v) # kvs else (k', v') # dict_set kvs k v)"

text \<open>\<^verbatim>\<open>Parser.get_string\<close>: the text of the token's span, \<^verbatim>\<open>self.json[t.start : t.end]\<close>.\<close>

definition get_string :: "string \<Rightarrow> Token \<Rightarrow> string" where
  "get_string json t = substr json (tstart t) (tend t)"

text \<open>
  \<^verbatim>\<open>Parser.normalized_string\<close>: the nine replacements, in the order of the source, applied
  to the whole text of the span.
\<close>

definition decode :: "string \<Rightarrow> string" where
  "decode raw =
     py_replace [CHR 0x5C, CHR ''u''] ''u''
       (py_replace [CHR 0x5C, CHR ''t''] [CHR 0x09]
         (py_replace [CHR 0x5C, CHR ''r''] [CHR 0x0D]
           (py_replace [CHR 0x5C, CHR ''n''] [CHR 0x0A]
             (py_replace [CHR 0x5C, CHR ''f''] [CHR 0x0C]
               (py_replace [CHR 0x5C, CHR ''b''] [CHR 0x08]
                 (py_replace [CHR 0x5C, CHR ''/''] ''/''
                   (py_replace [CHR 0x5C, CHR 0x22] [CHR 0x22]
                     (py_replace [CHR 0x5C, CHR 0x5C] [CHR 0x5C] raw))))))))"

definition normalized_string :: "string \<Rightarrow> Token \<Rightarrow> string" where
  "normalized_string json t = decode (get_string json t)"

text \<open>
  \<^verbatim>\<open>Parser._error\<close>.  The cursor \<^verbatim>\<open>self.i\<close> is an attribute that exists only once
  \<^verbatim>\<open>parse\<close> has assigned it: \<open>None\<close> is the parser object without this attribute, whose
  read raises AttributeError.  \<^verbatim>\<open>self.tokens[self.i - 2 : self.i]\<close> is a slice, so a
  negative lower bound counts from the end of the list; \<^verbatim>\<open>self.tokens[self.i]\<close> is a
  subscript and may raise IndexError.  \<open>raise_error\<close> is
  \<^verbatim>\<open>raise ValueError(self._error(msg))\<close>.
\<close>

definition parser_error :: "Token list \<Rightarrow> nat option \<Rightarrow> string \<Rightarrow> error + message" where
  "parser_error tokens cursor msg =
     (case cursor of
        None \<Rightarrow> Inl AttributeError
      | Some i \<Rightarrow>
          (let prior_tokens = py_slice tokens (int i - 2) (int i) in
           case py_index tokens i of
             Inl e \<Rightarrow> Inl e
           | Inr t \<Rightarrow> Inr (Context msg (map Span prior_tokens) (int i) (Span t))))"

definition raise_error :: "Token list \<Rightarrow> nat option \<Rightarrow> string \<Rightarrow> error + 'a" where
  "raise_error tokens cursor msg =
     (case parser_error tokens cursor msg of
        Inl e \<Rightarrow> Inl e
      | Inr m \<Rightarrow> Inl (ValueError m))"

text \<open>
  The last statement of \<^verbatim>\<open>parse_value\<close>:
  \<^verbatim>\<open>if self.tokens[self.i].type == TokenType.COMMA: self.i += 1\<close>, then
  \<^verbatim>\<open>return value\<close>.  The subscript is unguarded.
\<close>

definition skip_comma :: "Token list \<Rightarrow> 'a \<Rightarrow> nat \<Rightarrow> error + 'a \<times> nat" where
  "skip_comma tokens v i =
     (case py_index tokens i of
        Inl e \<Rightarrow> Inl e
      | Inr t \<Rightarrow> if ttype t = COMMA then Inr (v, i + 1) else Inr (v, i))"

text \<open>
  The three mutually recursive methods.  \<^verbatim>\<open>self.tokens\<close> and \<^verbatim>\<open>self.json\<close> are
  assigned once by \<^verbatim>\<open>parse\<close> and only read afterwards, and \<^verbatim>\<open>self.length\<close> is
  \<^verbatim>\<open>len(self.tokens)\<close>; they are parameters.  The cursor \<^verbatim>\<open>self.i\<close> is the state: each
  function takes it and returns it with its result.  \<open>parse_object\<close> and \<open>parse_array\<close>
  are the \<^verbatim>\<open>while self.i < self.length\<close> loops, carrying the locals \<^verbatim>\<open>result\<close> and
  \<^verbatim>\<open>known_keys\<close>; a method call enters them with empty locals.
\<close>

function
  parse_value :: "Token list \<Rightarrow> string \<Rightarrow> nat \<Rightarrow> error + pyvalue \<times> nat" and
  parse_object :: "Token list \<Rightarrow> string \<Rightarrow> nat \<Rightarrow> (string \<times> pyvalue) list \<Rightarrow> string set
                     \<Rightarrow> error + (string \<times> pyvalue) list \<times> nat" and
  parse_array :: "Token list \<Rightarrow> string \<Rightarrow> nat \<Rightarrow> pyvalue list \<Rightarrow> error + pyvalue list \<times> nat"
where
  "parse_value tokens json i =
     (case py_index tokens i of
        Inl e \<Rightarrow> Inl e
      | Inr t \<Rightarrow>
          (case ttype t of
             STRING \<Rightarrow> skip_comma tokens (VStr (normalized_string json t)) (i + 1)
           | NUMBER \<Rightarrow>
               (case py_float (get_string json t) of
                  Inl e \<Rightarrow> Inl e
                | Inr as_float \<Rightarrow>
                    if CHR ''.'' \<in> set (get_string json t)
                    then skip_comma tokens (VFloat as_float) (i + 1)
                    else (case py_int as_float of
                            Inl e \<Rightarrow> Inl e
                          | Inr n \<Rightarrow> skip_comma tokens (VInt n) (i + 1)))
           | L_CURLY \<Rightarrow>
               (case parse_object tokens json (i + 1) [] {} of
                  Inl e \<Rightarrow> Inl e
                | Inr (obj, i') \<Rightarrow> skip_comma tokens (VObject obj) i')
           | L_BRACKET \<Rightarrow>
               (case parse_array tokens json (i + 1) [] of
                  Inl e \<Rightarrow> Inl e
                | Inr (arr, i') \<Rightarrow> skip_comma tokens (VArray arr) i')
           | BOOLEAN \<Rightarrow> skip_comma tokens (VBool (get_string json t = ''true'')) (i + 1)
           | NULL \<Rightarrow> skip_comma tokens VNone (i + 1)
           | _ \<Rightarrow> raise_error tokens (Some i) ''Unknown tokentype''))"
| "parse_object tokens json i result known_keys =
     (if i < length tokens then
        (let ty = ttype (tokens ! i) in
         if ty = R_CURLY then Inr (result, i + 1)
         else if ty = STRING then
           (let key = normalized_string json (tokens ! i) in
            if key = [] then Inl AssertionError
            else if key \<in> known_keys
            then raise_error tokens (Some i) ''Duplicate key found''
            else
              (case py_index tokens (i + 1) of
                 Inl e \<Rightarrow> Inl e
               | Inr t \<Rightarrow>
                   if ttype t \<noteq> COLON
                   then raise_error tokens (Some (i + 1)) ''Expected colon''
                   else
                     (case parse_value tokens json (i + 2) of
                        Inl e \<Rightarrow> Inl e
                      | Inr (v, i') \<Rightarrow>
                          parse_object tokens json i' (dict_set result key v)
                            (insert key known_keys))))
         else raise_error tokens (Some i) ''Invalid object content'')
      else Inr (result, i))"
| "parse_array tokens json i result =
     (if i < length tokens then
        (let ty = ttype (tokens ! i) in
         if ty = R_BRACKET then Inr (result, i + 1)
         else
           (case parse_value tokens json i of
              Inl e \<Rightarrow> Inl e
            | Inr (v, i') \<Rightarrow> parse_array tokens json i' (result @ [v])))
      else Inr (result, i))"
  by pat_completeness auto

lemma skip_comma_result:
  "skip_comma tokens v i = Inr (v', i') \<Longrightarrow> v' = v \<and> i \<le> i' \<and> i' \<le> length tokens"
  by (auto simp: skip_comma_def py_index_def split: if_splits)

lemma raise_error_Inl [simp]: "raise_error tokens c msg \<noteq> Inr x"
  by (simp add: raise_error_def split: sum.splits)

lemma parse_progress:
  "parse_value_parse_object_parse_array_dom (Inl (tokens, json, i)) \<Longrightarrow>
     parse_value tokens json i = Inr (v, i') \<Longrightarrow> i < i'"
  "parse_value_parse_object_parse_array_dom (Inr (Inl (tokens, json, i, result, known_keys))) \<Longrightarrow>
     parse_object tokens json i result known_keys = Inr (obj, j) \<Longrightarrow> i \<le> j"
  "parse_value_parse_object_parse_array_dom (Inr (Inr (tokens, json, i, res))) \<Longrightarrow>
     parse_array tokens json i res = Inr (arr, k) \<Longrightarrow> i \<le> k"
proof (induction arbitrary: v i' and obj j and arr k
       rule: parse_value_parse_object_parse_array.pinduct)
  case (1 tokens json i)
  from "1.prems" "1.hyps" obtain t where t: "py_index tokens i = Inr t"
    by (cases "py_index tokens i") (simp_all add: parse_value.psimps)
  show ?case
  proof (cases "ttype t")
    case L_CURLY
    with "1.prems" "1.hyps" t obtain ob i1 where
      "parse_object tokens json (i + 1) [] {} = Inr (ob, i1)"
      "skip_comma tokens (VObject ob) i1 = Inr (v, i')"
      by (auto simp: parse_value.psimps split: sum.splits)
    with "1.IH"(1)[OF t L_CURLY] skip_comma_result show ?thesis by fastforce
  next
    case L_BRACKET
    with "1.prems" "1.hyps" t obtain ar i1 where
      "parse_array tokens json (i + 1) [] = Inr (ar, i1)"
      "skip_comma tokens (VArray ar) i1 = Inr (v, i')"
      by (auto simp: parse_value.psimps split: sum.splits)
    with "1.IH"(2)[OF t L_BRACKET] skip_comma_result show ?thesis by fastforce
  qed (use "1.prems" "1.hyps" t in
        \<open>auto simp: parse_value.psimps split: sum.splits if_splits dest!: skip_comma_result\<close>)
next
  case (2 tokens json i result known_keys)
  show ?case
  proof (cases "i < length tokens \<and> ttype (tokens ! i) = STRING")
    case False
    with "2.prems" "2.hyps" show ?thesis
      by (auto simp: parse_object.psimps Let_def split: if_splits)
  next
    case True
    with "2.prems" "2.hyps" obtain t vv i1 where
      a: "normalized_string json (tokens ! i) \<noteq> []"
         "normalized_string json (tokens ! i) \<notin> known_keys"
         "py_index tokens (i + 1) = Inr t" "\<not> ttype t \<noteq> COLON"
      and b: "parse_value tokens json (i + 2) = Inr (vv, i1)"
      and c: "parse_object tokens json i1
                (dict_set result (normalized_string json (tokens ! i)) vv)
                (insert (normalized_string json (tokens ! i)) known_keys) = Inr (obj, j)"
      by (auto simp: parse_object.psimps Let_def split: if_splits sum.splits)
    from True have d: "i < length tokens" "ttype (tokens ! i) \<noteq> R_CURLY"
      "ttype (tokens ! i) = STRING" by auto
    from "2.IH"(1)[OF d(1) refl d(2,3) refl a b] have "i + 2 < i1" .
    moreover from "2.IH"(2)[OF d(1) refl d(2,3) refl a b refl c] have "i1 \<le> j" .
    ultimately show ?thesis by simp
  qed
next
  case (3 tokens json i res)
  show ?case
  proof (cases "i < length tokens \<and> ttype (tokens ! i) \<noteq> R_BRACKET")
    case False
    with "3.prems" "3.hyps" show ?thesis
      by (auto simp: parse_array.psimps Let_def split: if_splits)
  next
    case True
    with "3.prems" "3.hyps" obtain vv i1 where
      b: "parse_value tokens json i = Inr (vv, i1)"
      and c: "parse_array tokens json i1 (res @ [vv]) = Inr (arr, k)"
      by (auto simp: parse_array.psimps Let_def split: if_splits sum.splits)
    from True have d: "i < length tokens" "ttype (tokens ! i) \<noteq> R_BRACKET" by auto
    from "3.IH"(1)[OF d(1) refl d(2) b] have "i < i1" .
    moreover from "3.IH"(2)[OF d(1) refl d(2) b refl c] have "i1 \<le> k" .
    ultimately show ?thesis by simp
  qed
qed

termination parse_value
proof (relation "measure (\<lambda>x. case x of
          Inl (tokens, json, i) \<Rightarrow> 2 * (length tokens - i)
        | Inr (Inl (tokens, json, i, result, known_keys)) \<Rightarrow> 2 * (length tokens - i) + 1
        | Inr (Inr (tokens, json, i, result)) \<Rightarrow> 2 * (length tokens - i) + 1)", goal_cases)
  case 1 show ?case by simp
next
  case 2 then show ?case by (auto simp: py_index_def split: if_splits)
next
  case 3 then show ?case by (auto simp: py_index_def split: if_splits)
next
  case 4 then show ?case by (auto simp: py_index_def split: if_splits)
next
  case 5 then show ?case using parse_progress(1) by fastforce
next
  case 6 then show ?case by simp
next
  case 7 then show ?case using parse_progress(1) by fastforce
qed

declare parse_value.simps [simp del] parse_object.simps [simp del] parse_array.simps [simp del]

text \<open>
  \<^verbatim>\<open>Parser.parse\<close> and \<^verbatim>\<open>loads\<close>.  \<^verbatim>\<open>loads\<close> builds a fresh \<^verbatim>\<open>Parser()\<close>, which has
  no attribute \<^verbatim>\<open>i\<close> until \<^verbatim>\<open>parse\<close> executes \<^verbatim>\<open>self.i = 1\<close>; the check of the
  number of tokens comes before this assignment, so its \<^verbatim>\<open>_error\<close> call runs without a
  cursor.  The text is lexed first, so a lexer exception is the result of \<^verbatim>\<open>parse\<close>.
\<close>

definition parse :: "string \<Rightarrow> error + pyvalue" where
  "parse json =
     (case lex json of
        Inl e \<Rightarrow> Inl e
      | Inr tokens \<Rightarrow>
          if length tokens < 2 then raise_error tokens None ''Too short to be valid''
          else
            (case ttype (tokens ! 0) of
               L_CURLY \<Rightarrow>
                 (case parse_object tokens json 1 [] {} of
                    Inl e \<Rightarrow> Inl e
                  | Inr (obj, i) \<Rightarrow> Inr (VObject obj))
             | L_BRACKET \<Rightarrow>
                 (case parse_array tokens json 1 [] of
                    Inl e \<Rightarrow> Inl e
                  | Inr (arr, i) \<Rightarrow> Inr (VArray arr))
             | _ \<Rightarrow> raise_error tokens (Some 1) ''Invalid input''))"

definition loads :: "string \<Rightarrow> error + pyvalue" where
  "loads json = parse json"

section \<open>Evaluation on concrete texts\<close>

lemmas lex_eval = lex_def lex_loop.simps lex_number.simps lex_string.simps lex_unicode_def
  py_split_def substr_def NUMERIC_def Tok_def Let_def

lemmas parse_eval = parse_value.simps parse_object.simps parse_array.simps
  skip_comma_def py_index_def raise_error_def parser_error_def py_slice_def py_bound_def
  get_string_def normalized_string_def decode_def substr_def Tok_def Let_def

lemmas literal_eval = float_literal_def take_sign_def take_fraction_def
  take_exponent_def is_digit_def digit_val_def digits_val_def

lemmas binary64_eval = binary64_def round_half_even_def bit_length.simps Let_def

lemma binary64_1: "binary64 1 1 = Some 1"
  by (simp add: binary64_eval)

lemma binary64_2: "binary64 2 1 = Some 2"
  by (simp add: binary64_eval)

lemma py_float_1: "py_float ''1'' = Inr (Finite False 1)"
  using binary64_1 by (simp add: py_float_def literal_eval)

lemma py_float_2: "py_float ''2'' = Inr (Finite False 2)"
  using binary64_2 by (simp add: py_float_def literal_eval)

lemma py_int_small: "py_int (Finite False 1) = Inr 1" "py_int (Finite False 2) = Inr 2"
  by (simp_all add: py_int_def)

lemma binary64_3_2: "binary64 15 10 = Some (3 / 2)"
  by (simp add: binary64_eval)

lemma binary64_150: "binary64 150 1 = Some 150"
  by (simp add: binary64_eval)

lemma binary64_100: "binary64 100 1 = Some 100"
  by (simp add: binary64_eval)

lemma py_float_1_5: "py_float ''1.5'' = Inr (Finite False (3 / 2))"
  using binary64_3_2 by (simp add: py_float_def literal_eval)

lemma py_float_150: "py_float ''150'' = Inr (Finite False 150)"
  using binary64_150 by (simp add: py_float_def literal_eval)

lemma py_float_1e2: "py_float ''1e2'' = Inr (Finite False 100)"
  using binary64_100 by (simp add: py_float_def literal_eval)

lemma py_int_examples:
  "py_int (Finite False 150) = Inr 150" "py_int (Finite False 100) = Inr 100"
  by (simp_all add: py_int_def)

section \<open>The number scan of the lexer\<close>

lemma drop_eq_ConsD:
  "drop i xs = y # ys \<Longrightarrow> i < length xs \<and> xs ! i = y \<and> drop (i + 1) xs = ys"
  by (metis Cons_nth_drop_Suc Suc_eq_plus1 drop_eq_Nil linorder_not_less list.distinct(1)
      list.inject)

lemma lex_number_stops:
  "drop i json = run @ c # rest \<Longrightarrow> set run \<subseteq> NUMERIC \<Longrightarrow> c \<notin> NUMERIC
     \<Longrightarrow> lex_number json i = Inr (i + length run)"
proof (induction run arbitrary: i)
  case Nil
  then show ?case
    by (subst lex_number.simps) (auto dest!: drop_eq_ConsD)
next
  case (Cons x run)
  from Cons.prems(1) have "i < length json" "json ! i = x" "drop (i + 1) json = run @ c # rest"
    using drop_eq_ConsD[of i json x "run @ c # rest"] by simp_all
  with Cons.IH[of "i + 1"] Cons.prems(2,3) show ?case
    by (subst lex_number.simps) simp
qed

lemma lex_number_overruns:
  "set (drop i json) \<subseteq> NUMERIC \<Longrightarrow> lex_number json i = Inl IndexError"
proof (induction json i rule: lex_number.induct)
  case (1 json i)
  show ?case
  proof (cases "i < length json")
    case False
    then show ?thesis by (subst lex_number.simps) simp
  next
    case True
    then have "drop i json = json ! i # drop (i + 1) json"
      by (simp add: Cons_nth_drop_Suc)
    with "1.prems" have "json ! i \<in> NUMERIC" "set (drop (i + 1) json) \<subseteq> NUMERIC"
      by auto
    with "1.IH" True show ?thesis
      by (subst lex_number.simps) simp
  qed
qed

lemma numeric_not_special:
  "c \<in> NUMERIC \<Longrightarrow>
     c \<noteq> CHR ''{'' \<and> c \<noteq> CHR ''}'' \<and> c \<noteq> CHR ''['' \<and> c \<noteq> CHR '']'' \<and> c \<noteq> CHR '':''
     \<and> c \<noteq> CHR '','' \<and> c \<noteq> CHR ''t'' \<and> c \<noteq> CHR ''f'' \<and> c \<noteq> CHR ''n'' \<and> c \<noteq> CHR 0x22"
  by (auto simp: NUMERIC_def)

lemma lex_loop_numeric:
  "i < length json \<Longrightarrow> json ! i \<in> NUMERIC \<Longrightarrow>
     lex_loop json i tokens =
       (case lex_number json i of
          Inl e \<Rightarrow> Inl e
        | Inr j \<Rightarrow> lex_loop json j (tokens @ [Tok NUMBER i j]))"
  using numeric_not_special[of "json ! i"]
  by (subst lex_loop.simps) (simp add: Let_def)

text \<open>
  C10 (amended).  Where the lexer dispatches at position \<open>i\<close> on a character of the
  numeric set and the run of numeric characters \<open>i..<j\<close> is followed, inside the text,
  by a character \<open>json ! j\<close> that is not numeric, it emits one Number token spanning
  exactly \<open>(i, j)\<close> and goes on at \<open>j\<close>.  Where the run reaches the end of the text, the
  scan reads \<^verbatim>\<open>json[len(json)]\<close> and the lexer fails with IndexError: no token is
  emitted for that run.
\<close>

theorem lex_number_run:
  "(i < j \<and> j < length json \<and> set (substr json i j) \<subseteq> NUMERIC \<and> json ! j \<notin> NUMERIC
      \<longrightarrow> lex_loop json i tokens = lex_loop json j (tokens @ [Tok NUMBER i j]))
   \<and> (i < length json \<and> set (drop i json) \<subseteq> NUMERIC
      \<longrightarrow> lex_loop json i tokens = Inl IndexError)"
proof (intro conjI impI)
  assume a: "i < j \<and> j < length json \<and> set (substr json i j) \<subseteq> NUMERIC \<and> json ! j \<notin> NUMERIC"
  have "drop (j - i) (drop i json) = drop j json"
    using a by simp
  also have "\<dots> = json ! j # drop (j + 1) json"
    using a by (simp add: Cons_nth_drop_Suc)
  finally have d: "drop i json = substr json i j @ json ! j # drop (j + 1) json"
    using append_take_drop_id[of "j - i" "drop i json"] by (simp add: substr_def)
  from a have len: "length (substr json i j) = j - i"
    by (auto simp: substr_def)
  from a have "substr json i j \<noteq> []"
    using len by auto
  then have hd: "json ! i \<in> NUMERIC"
    using a d by (metis append_Cons drop_eq_ConsD list.exhaust list.set_intros(1) subsetD)
  from lex_number_stops[OF d] a len have "lex_number json i = Inr j" by simp
  with a hd show "lex_loop json i tokens = lex_loop json j (tokens @ [Tok NUMBER i j])"
    by (simp add: lex_loop_numeric)
next
  assume a: "i < length json \<and> set (drop i json) \<subseteq> NUMERIC"
  then have "json ! i \<in> NUMERIC"
    by (metis Cons_nth_drop_Suc list.set_intros(1) subsetD)
  with a lex_number_overruns[of i json]
  show "lex_loop json i tokens = Inl IndexError"
    by (simp add: lex_loop_numeric)
qed

theorem lex_number_run_witness:
  "((1::nat) < 3 \<and> 3 < length ''[12]'' \<and> set (substr ''[12]'' 1 3) \<subseteq> NUMERIC
     \<and> ''[12]'' ! 3 \<notin> NUMERIC)
   \<and> lex_loop ''[12]'' 1 [Tok L_BRACKET 0 1]
         = lex_loop ''[12]'' 3 ([Tok L_BRACKET 0 1] @ [Tok NUMBER 1 3])
   \<and> (6 < length ''[1,2] 5'' \<and> set (drop 6 ''[1,2] 5'') \<subseteq> NUMERIC)
   \<and> lex_loop ''[1,2] 5'' 6 [] = Inl IndexError"
proof -
  have a: "(1::nat) < 3 \<and> 3 < length ''[12]'' \<and> set (substr ''[12]'' 1 3) \<subseteq> NUMERIC
     \<and> ''[12]'' ! 3 \<notin> NUMERIC"
    by (simp add: substr_def NUMERIC_def)
  have b: "6 < length ''[1,2] 5'' \<and> set (drop 6 ''[1,2] 5'') \<subseteq> NUMERIC"
    by (simp add: NUMERIC_def)
  from a lex_number_run[of 1 3 "''[12]''" "[Tok L_BRACKET 0 1]"]
  have c: "lex_loop ''[12]'' 1 [Tok L_BRACKET 0 1]
         = lex_loop ''[12]'' 3 ([Tok L_BRACKET 0 1] @ [Tok NUMBER 1 3])"
    by blast
  from b lex_number_run[of 6 0 "''[1,2] 5''" "[]"]
  have d: "lex_loop ''[1,2] 5'' 6 [] = Inl IndexError"
    by blast
  from a b c d show ?thesis by blast
qed

theorem lex_number_at_end_counterexample:
  "lex ''[1,2] 5'' = Inl IndexError"
  by (simp add: lex_eval)

section \<open>The entry rule of the parser\<close>

lemma parse_too_short:
  "lex json = Inr tokens \<Longrightarrow> length tokens < 2 \<Longrightarrow> loads json = Inl AttributeError"
  by (simp add: loads_def parse_def raise_error_def parser_error_def)

lemma parse_invalid_input:
  assumes "lex json = Inr tokens" "2 \<le> length tokens"
    and "ttype (tokens ! 0) \<noteq> L_CURLY" "ttype (tokens ! 0) \<noteq> L_BRACKET"
  shows "loads json = Inl (ValueError (Context ''Invalid input'' [] 1 (Span (tokens ! 1))))"
proof -
  have "py_slice tokens (int 1 - 2) (int 1) = []"
    using assms(2) by (simp add: py_slice_def py_bound_def)
  then have "raise_error tokens (Some 1) ''Invalid input''
      = (Inl (ValueError (Context ''Invalid input'' [] 1 (Span (tokens ! 1)))) :: error + pyvalue)"
    using assms(2) by (simp add: raise_error_def parser_error_def py_index_def)
  with assms show ?thesis
    by (cases "ttype (tokens ! 0)") (simp_all add: loads_def parse_def)
qed

text \<open>
  C5.  The claim is that a token sequence of fewer than two tokens fails with the
  "Too short to be valid" error.  \<^verbatim>\<open>parse\<close> does reach
  \<^verbatim>\<open>raise ValueError(self._error("Too short to be valid"))\<close>, but \<^verbatim>\<open>_error\<close> reads
  \<^verbatim>\<open>self.i\<close>, which is assigned only after this check: the call raises AttributeError
  and the ValueError is never built.  Evaluated on the one-token text \<^verbatim>\<open>[\<close> and on the
  empty text.
\<close>

theorem loads_too_short_raises_attribute_error:
  "loads ''['' = Inl AttributeError \<and> loads '''' = Inl AttributeError"
  by (simp add: loads_def parse_def lex_eval raise_error_def parser_error_def)

section \<open>Unicode escapes\<close>

lemma lex_unicode_raises:
  "lex_unicode json idx = Inl (ValueError (Plain ''empty separator''))"
  by (simp add: lex_unicode_def py_split_def)

text \<open>
  C2.  The claim is that a \<^verbatim>\<open>\uXXXX\<close> escape with four hex digits is accepted by the
  lexer and decoded to the letter u followed by the digits.  The unicode branch of the
  string scan does check the four characters against HEXDIGITS and does advance by six,
  but it obtains them from \<^verbatim>\<open>unicodes.split("")\<close>, and \<^verbatim>\<open>str.split\<close> with an empty
  separator raises \<^verbatim>\<open>ValueError("empty separator")\<close>: the branch raises on every
  input, and so does \<^verbatim>\<open>loads\<close> on the text \<^verbatim>\<open>{"a":"A"}\<close> of the claim.
\<close>

theorem loads_unicode_escape_raises:
  \<open>(\<forall>json idx. lex_unicode json idx = Inl (ValueError (Plain ''empty separator'')))
   \<and> loads (''{"a":"'' @ [CHR 0x5C] @ ''u0041"}'')
       = Inl (ValueError (Plain ''empty separator''))\<close>
  by (simp add: lex_unicode_raises loads_def parse_def lex_def lex_loop.simps
        lex_string.simps Let_def)

section \<open>Where the cursor stands when a parser function returns\<close>

definition after_value :: "Token list \<Rightarrow> nat \<Rightarrow> bool" where
  "after_value tokens k \<longleftrightarrow>
     k \<le> length tokens \<and> 0 < k \<and>
     (ttype (tokens ! (k - 1)) = COMMA \<or> (k < length tokens \<and> ttype (tokens ! k) \<noteq> COMMA))"

definition after_loop :: "TokenType \<Rightarrow> Token list \<Rightarrow> nat \<Rightarrow> nat \<Rightarrow> bool" where
  "after_loop closing tokens i k \<longleftrightarrow>
     (k = i \<and> length tokens \<le> i) \<or>
     (i < k \<and> k \<le> length tokens \<and>
      (ttype (tokens ! (k - 1)) = closing \<or>
       (k = length tokens \<and> ttype (tokens ! (k - 1)) = COMMA)))"

lemma skip_comma_after:
  "skip_comma tokens v k = Inr (v', k') \<Longrightarrow> k \<le> k' \<and> (0 < k \<longrightarrow> after_value tokens k')"
  by (auto simp: skip_comma_def py_index_def after_value_def split: if_splits)

lemma after_loop_step:
  "i < i1 \<Longrightarrow> after_value tokens i1 \<Longrightarrow> after_loop c tokens i1 k \<Longrightarrow> after_loop c tokens i k"
  by (auto simp: after_value_def after_loop_def)

lemma parse_cursor:
  "parse_value tokens json i = Inr (v, i') \<Longrightarrow> i < i' \<and> after_value tokens i'"
  "parse_object tokens json i result known_keys = Inr (obj, j) \<Longrightarrow> after_loop R_CURLY tokens i j"
  "parse_array tokens json i res = Inr (arr, k) \<Longrightarrow> after_loop R_BRACKET tokens i k"
proof (induction tokens json i and tokens json i result known_keys and tokens json i res
       arbitrary: v i' and obj j and arr k
       rule: parse_value_parse_object_parse_array.induct)
  case (1 tokens json i)
  from "1.prems" obtain t where t: "py_index tokens i = Inr t"
    by (cases "py_index tokens i") (simp_all add: parse_value.simps)
  show ?case
  proof (cases "ttype t")
    case L_CURLY
    with "1.prems" t obtain ob i1 where
      a: "parse_object tokens json (i + 1) [] {} = Inr (ob, i1)"
      and b: "skip_comma tokens (VObject ob) i1 = Inr (v, i')"
      by (auto simp: parse_value.simps split: sum.splits)
    from "1.IH"(1)[OF t L_CURLY a] have "i + 1 \<le> i1"
      by (auto simp: after_loop_def)
    with skip_comma_after[OF b] show ?thesis by auto
  next
    case L_BRACKET
    with "1.prems" t obtain ar i1 where
      a: "parse_array tokens json (i + 1) [] = Inr (ar, i1)"
      and b: "skip_comma tokens (VArray ar) i1 = Inr (v, i')"
      by (auto simp: parse_value.simps split: sum.splits)
    from "1.IH"(2)[OF t L_BRACKET a] have "i + 1 \<le> i1"
      by (auto simp: after_loop_def)
    with skip_comma_after[OF b] show ?thesis by auto
  qed (use "1.prems" t in
        \<open>auto simp: parse_value.simps split: sum.splits if_splits dest!: skip_comma_after\<close>)
next
  case (2 tokens json i result known_keys)
  show ?case
  proof (cases "i < length tokens \<and> ttype (tokens ! i) = STRING")
    case False
    with "2.prems" show ?thesis
      by (auto simp: parse_object.simps Let_def after_loop_def split: if_splits)
  next
    case True
    with "2.prems" obtain t vv i1 where
      a: "normalized_string json (tokens ! i) \<noteq> []"
         "normalized_string json (tokens ! i) \<notin> known_keys"
         "py_index tokens (i + 1) = Inr t" "\<not> ttype t \<noteq> COLON"
      and b: "parse_value tokens json (i + 2) = Inr (vv, i1)"
      and c: "parse_object tokens json i1
                (dict_set result (normalized_string json (tokens ! i)) vv)
                (insert (normalized_string json (tokens ! i)) known_keys) = Inr (obj, j)"
      by (auto simp: parse_object.simps Let_def split: if_splits sum.splits)
    from True have d: "i < length tokens" "ttype (tokens ! i) \<noteq> R_CURLY"
      "ttype (tokens ! i) = STRING" by auto
    from "2.IH"(1)[OF d(1) refl d(2,3) refl a b]
    have e: "i < i1" "after_value tokens i1" by auto
    from "2.IH"(2)[OF d(1) refl d(2,3) refl a b refl c]
    have "after_loop R_CURLY tokens i1 j" .
    with e show ?thesis by (rule after_loop_step)
  qed
next
  case (3 tokens json i res)
  show ?case
  proof (cases "i < length tokens \<and> ttype (tokens ! i) \<noteq> R_BRACKET")
    case False
    with "3.prems" show ?thesis
      by (auto simp: parse_array.simps Let_def after_loop_def split: if_splits)
  next
    case True
    with "3.prems" obtain vv i1 where
      b: "parse_value tokens json i = Inr (vv, i1)"
      and c: "parse_array tokens json i1 (res @ [vv]) = Inr (arr, k)"
      by (auto simp: parse_array.simps Let_def split: if_splits sum.splits)
    from True have d: "i < length tokens" "ttype (tokens ! i) \<noteq> R_BRACKET" by auto
    from "3.IH"(1)[OF d(1) refl d(2) b]
    have e: "i < i1" "after_value tokens i1" by auto
    from "3.IH"(2)[OF d(1) refl d(2) b refl c]
    have "after_loop R_BRACKET tokens i1 k" .
    with e show ?thesis by (rule after_loop_step)
  qed
qed

lemma lex_trailing_comma:
  "lex ''[1,2,]'' = Inr [Tok L_BRACKET 0 1, Tok NUMBER 1 2, Tok COMMA 2 3, Tok NUMBER 3 4,
                         Tok COMMA 4 5, Tok R_BRACKET 5 6]"
  by (simp add: lex_eval)

lemma loads_trailing_comma: "loads ''[1,2,]'' = Inr (VArray [VInt 1, VInt 2])"
  by (simp add: loads_def parse_def lex_trailing_comma parse_eval py_float_1 py_float_2
        py_int_small)

lemma parse_value_scalar_comma:
  assumes "i + 1 < length tokens" "ttype (tokens ! i) \<in> {STRING, BOOLEAN, NULL}"
  shows "\<exists>v. parse_value tokens json i
           = Inr (v, if ttype (tokens ! (i + 1)) = COMMA then i + 2 else i + 1)"
  using assms by (auto simp: parse_value.simps py_index_def skip_comma_def)

lemma parse_value_string:
  "i + 1 < length tokens \<Longrightarrow> ttype (tokens ! i) = STRING \<Longrightarrow>
     parse_value tokens json i
       = Inr (VStr (normalized_string json (tokens ! i)),
              if ttype (tokens ! (i + 1)) = COMMA then i + 2 else i + 1)"
  by (simp add: parse_value.simps py_index_def skip_comma_def)

lemma parse_value_boolean:
  "i + 1 < length tokens \<Longrightarrow> ttype (tokens ! i) = BOOLEAN \<Longrightarrow>
     parse_value tokens json i
       = Inr (VBool (get_string json (tokens ! i) = ''true''),
              if ttype (tokens ! (i + 1)) = COMMA then i + 2 else i + 1)"
  by (simp add: parse_value.simps py_index_def skip_comma_def)

lemma parse_value_null:
  "i + 1 < length tokens \<Longrightarrow> ttype (tokens ! i) = NULL \<Longrightarrow>
     parse_value tokens json i
       = Inr (VNone, if ttype (tokens ! (i + 1)) = COMMA then i + 2 else i + 1)"
  by (simp add: parse_value.simps py_index_def skip_comma_def)

lemma parse_value_float:
  "i + 1 < length tokens \<Longrightarrow> ttype (tokens ! i) = NUMBER \<Longrightarrow>
   py_float (get_string json (tokens ! i)) = Inr f \<Longrightarrow>
   CHR ''.'' \<in> set (get_string json (tokens ! i)) \<Longrightarrow>
     parse_value tokens json i
       = Inr (VFloat f, if ttype (tokens ! (i + 1)) = COMMA then i + 2 else i + 1)"
  by (simp add: parse_value.simps py_index_def skip_comma_def)

lemma parse_value_int:
  "i + 1 < length tokens \<Longrightarrow> ttype (tokens ! i) = NUMBER \<Longrightarrow>
   py_float (get_string json (tokens ! i)) = Inr f \<Longrightarrow>
   CHR ''.'' \<notin> set (get_string json (tokens ! i)) \<Longrightarrow> py_int f = Inr n \<Longrightarrow>
     parse_value tokens json i
       = Inr (VInt n, if ttype (tokens ! (i + 1)) = COMMA then i + 2 else i + 1)"
  by (simp add: parse_value.simps py_index_def skip_comma_def)

lemma parse_value_object:
  "i < length tokens \<Longrightarrow> ttype (tokens ! i) = L_CURLY \<Longrightarrow>
   parse_object tokens json (i + 1) [] {} = Inr (obj, k) \<Longrightarrow> k < length tokens \<Longrightarrow>
     parse_value tokens json i
       = Inr (VObject obj, if ttype (tokens ! k) = COMMA then k + 1 else k)"
  by (simp add: parse_value.simps py_index_def skip_comma_def)

lemma parse_value_array:
  "i < length tokens \<Longrightarrow> ttype (tokens ! i) = L_BRACKET \<Longrightarrow>
   parse_array tokens json (i + 1) [] = Inr (arr, k) \<Longrightarrow> k < length tokens \<Longrightarrow>
     parse_value tokens json i
       = Inr (VArray arr, if ttype (tokens ! k) = COMMA then k + 1 else k)"
  by (simp add: parse_value.simps py_index_def skip_comma_def)

lemma loads_nested_comma: "loads ''[[1],2]'' = Inr (VArray [VArray [VInt 1], VInt 2])"
proof -
  have "lex ''[[1],2]'' = Inr [Tok L_BRACKET 0 1, Tok L_BRACKET 1 2, Tok NUMBER 2 3,
          Tok R_BRACKET 3 4, Tok COMMA 4 5, Tok NUMBER 5 6, Tok R_BRACKET 6 7]"
    by (simp add: lex_eval)
  then show ?thesis
    by (simp add: loads_def parse_def parse_eval py_float_1 py_float_2 py_int_small)
qed

lemma loads_object_trailing_comma:
  \<open>loads ''{"a":[1,],}'' = Inr (VObject [([CHR 0x22, CHR ''a'', CHR 0x22], VArray [VInt 1])])\<close>
proof -
  have \<open>lex ''{"a":[1,],}'' = Inr [Tok L_CURLY 0 1, Tok STRING 1 4, Tok COLON 4 5,
          Tok L_BRACKET 5 6, Tok NUMBER 6 7, Tok COMMA 7 8, Tok R_BRACKET 8 9, Tok COMMA 9 10,
          Tok R_CURLY 10 11]\<close>
    by (simp add: lex_eval)
  then show ?thesis
    by (simp add: loads_def parse_def parse_eval py_float_1 py_int_small)
qed

definition comma_text :: string where
  "comma_text = ''[[1],{},'' @ [CHR 0x22, CHR ''s'', CHR 0x22] @ '',true,null,1.5,2,]''"

definition comma_tokens :: "Token list" where
  "comma_tokens =
     [Tok L_BRACKET 0 1, Tok L_BRACKET 1 2, Tok NUMBER 2 3, Tok R_BRACKET 3 4, Tok COMMA 4 5,
      Tok L_CURLY 5 6, Tok R_CURLY 6 7, Tok COMMA 7 8, Tok STRING 8 11, Tok COMMA 11 12,
      Tok BOOLEAN 12 16, Tok COMMA 16 17, Tok NULL 17 21, Tok COMMA 21 22,
      Tok NUMBER 22 25, Tok COMMA 25 26, Tok NUMBER 26 27, Tok COMMA 27 28,
      Tok R_BRACKET 28 29]"

lemma lex_comma_text: "lex comma_text = Inr comma_tokens"
  by (simp add: comma_text_def comma_tokens_def lex_eval)

text \<open>
  C6.  After every value that \<open>parse_value\<close> produces, a comma at the cursor is consumed,
  whatever the grammar position.  For each kind of value the theorem gives the result of
  \<open>parse_value\<close> as an equation: once the value is produced with the cursor at \<open>k\<close> (the
  token after a String, Number, Boolean or Null; the cursor returned by \<open>parse_object\<close>
  or \<open>parse_array\<close> after an object or array) and a token exists at \<open>k\<close>, the call
  succeeds with that value and returns \<open>k + 1\<close> when that token is a comma and \<open>k\<close>
  otherwise.  Conversely every return of \<open>parse_value\<close> leaves the cursor after a comma
  it has consumed or at a token that is not a comma.  The texts \<^verbatim>\<open>[1,2,]\<close>,
  \<^verbatim>\<open>[[1],2]\<close> and \<^verbatim>\<open>{"a":[1,],}\<close>, with commas after a number, an array and an
  object's last member, are accepted.
\<close>

theorem parse_value_consumes_comma:
  \<open>(parse_value tokens json i = Inr (v, i') \<longrightarrow>
      i < i' \<and> i' \<le> length tokens \<and>
      (ttype (tokens ! (i' - 1)) = COMMA \<or> (i' < length tokens \<and> ttype (tokens ! i') \<noteq> COMMA)))
   \<and> (i + 1 < length tokens \<and> ttype (tokens ! i) \<in> {STRING, BOOLEAN, NULL} \<longrightarrow>
        (\<exists>v. parse_value tokens json i
           = Inr (v, if ttype (tokens ! (i + 1)) = COMMA then i + 2 else i + 1)))
   \<and> loads ''[1,2,]'' = Inr (VArray [VInt 1, VInt 2])
   \<and> (i + 1 < length tokens \<and> ttype (tokens ! i) = STRING \<longrightarrow>
        parse_value tokens json i
          = Inr (VStr (normalized_string json (tokens ! i)),
                 if ttype (tokens ! (i + 1)) = COMMA then i + 2 else i + 1))
   \<and> (i + 1 < length tokens \<and> ttype (tokens ! i) = BOOLEAN \<longrightarrow>
        parse_value tokens json i
          = Inr (VBool (get_string json (tokens ! i) = ''true''),
                 if ttype (tokens ! (i + 1)) = COMMA then i + 2 else i + 1))
   \<and> (i + 1 < length tokens \<and> ttype (tokens ! i) = NULL \<longrightarrow>
        parse_value tokens json i
          = Inr (VNone, if ttype (tokens ! (i + 1)) = COMMA then i + 2 else i + 1))
   \<and> (i + 1 < length tokens \<and> ttype (tokens ! i) = NUMBER
        \<and> py_float (get_string json (tokens ! i)) = Inr f
        \<and> CHR ''.'' \<in> set (get_string json (tokens ! i)) \<longrightarrow>
        parse_value tokens json i
          = Inr (VFloat f, if ttype (tokens ! (i + 1)) = COMMA then i + 2 else i + 1))
   \<and> (i + 1 < length tokens \<and> ttype (tokens ! i) = NUMBER
        \<and> py_float (get_string json (tokens ! i)) = Inr f
        \<and> CHR ''.'' \<notin> set (get_string json (tokens ! i)) \<and> py_int f = Inr n \<longrightarrow>
        parse_value tokens json i
          = Inr (VInt n, if ttype (tokens ! (i + 1)) = COMMA then i + 2 else i + 1))
   \<and> (i < length tokens \<and> ttype (tokens ! i) = L_CURLY
        \<and> parse_object tokens json (i + 1) [] {} = Inr (obj, k) \<and> k < length tokens \<longrightarrow>
        parse_value tokens json i
          = Inr (VObject obj, if ttype (tokens ! k) = COMMA then k + 1 else k))
   \<and> (i < length tokens \<and> ttype (tokens ! i) = L_BRACKET
        \<and> parse_array tokens json (i + 1) [] = Inr (arr, k) \<and> k < length tokens \<longrightarrow>
        parse_value tokens json i
          = Inr (VArray arr, if ttype (tokens ! k) = COMMA then k + 1 else k))
   \<and> loads ''[[1],2]'' = Inr (VArray [VArray [VInt 1], VInt 2])
   \<and> loads ''{"a":[1,],}''
        = Inr (VObject [([CHR 0x22, CHR ''a'', CHR 0x22], VArray [VInt 1])])\<close>
proof -
  have first: "parse_value tokens json i = Inr (v, i') \<longrightarrow>
      i < i' \<and> i' \<le> length tokens \<and>
      (ttype (tokens ! (i' - 1)) = COMMA \<or> (i' < length tokens \<and> ttype (tokens ! i') \<noteq> COMMA))"
    using parse_cursor(1)[of tokens json i v i'] by (simp add: after_value_def)
  show ?thesis
    using first parse_value_scalar_comma[of i tokens json] loads_trailing_comma
      parse_value_string[of i tokens json] parse_value_boolean[of i tokens json]
      parse_value_null[of i tokens json] parse_value_float[of i tokens json f]
      parse_value_int[of i tokens json f n] parse_value_object[of i tokens json obj k]
      parse_value_array[of i tokens json arr k] loads_nested_comma
      loads_object_trailing_comma
    by (intro conjI impI) (simp_all only: simp_thms)
qed

theorem parse_value_consumes_comma_witness:
  "parse_value [Tok L_BRACKET 0 1, Tok NULL 1 5, Tok COMMA 5 6, Tok R_BRACKET 6 7] ''[null,]'' 1
      = Inr (VNone, 3)
   \<and> (1::nat) < 3 \<and> 3 \<le> length [Tok L_BRACKET 0 1, Tok NULL 1 5, Tok COMMA 5 6, Tok R_BRACKET 6 7]
   \<and> ttype ([Tok L_BRACKET 0 1, Tok NULL 1 5, Tok COMMA 5 6, Tok R_BRACKET 6 7] ! (3 - 1)) = COMMA
   \<and> (\<exists>v. parse_value [Tok L_BRACKET 0 1, Tok NULL 1 5, Tok COMMA 5 6, Tok R_BRACKET 6 7]
               ''[null,]'' 1 = Inr (v, 3))
   \<and> lex comma_text = Inr comma_tokens
   \<and> parse_array comma_tokens comma_text 2 [] = Inr ([VInt 1], 4)
   \<and> parse_value comma_tokens comma_text 1 = Inr (VArray [VInt 1], 5)
   \<and> parse_object comma_tokens comma_text 6 [] {} = Inr ([], 7)
   \<and> parse_value comma_tokens comma_text 5 = Inr (VObject [], 8)
   \<and> parse_value comma_tokens comma_text 8
        = Inr (VStr (normalized_string comma_text (comma_tokens ! 8)), 10)
   \<and> parse_value comma_tokens comma_text 10 = Inr (VBool True, 12)
   \<and> parse_value comma_tokens comma_text 12 = Inr (VNone, 14)
   \<and> parse_value comma_tokens comma_text 14 = Inr (VFloat (Finite False (3 / 2)), 16)
   \<and> parse_value comma_tokens comma_text 16 = Inr (VInt 2, 18)"
proof -
  let ?ts = "[Tok L_BRACKET 0 1, Tok NULL 1 5, Tok COMMA 5 6, Tok R_BRACKET 6 7]"
  have a: "parse_value ?ts ''[null,]'' 1 = Inr (VNone, 3)"
    by (simp add: parse_eval)
  have b: "1 + 1 < length ?ts \<and> ttype (?ts ! 1) \<in> {STRING, BOOLEAN, NULL}"
    by (simp add: Tok_def)
  have c: "ttype (?ts ! (1 + 1)) = COMMA"
    by (simp add: Tok_def)
  from parse_value_consumes_comma[of ?ts "''[null,]''" 1 VNone 3] a b c
  have old: "parse_value ?ts ''[null,]'' 1 = Inr (VNone, 3)
   \<and> (1::nat) < 3 \<and> 3 \<le> length ?ts \<and> ttype (?ts ! (3 - 1)) = COMMA
   \<and> (\<exists>v. parse_value ?ts ''[null,]'' 1 = Inr (v, 3))"
    by (simp add: Tok_def)
  have len: "length comma_tokens = 19"
    by (simp add: comma_tokens_def)
  have ty: "ttype (comma_tokens ! 1) = L_BRACKET" "ttype (comma_tokens ! 4) = COMMA"
    "ttype (comma_tokens ! 5) = L_CURLY" "ttype (comma_tokens ! 7) = COMMA"
    "ttype (comma_tokens ! 8) = STRING" "ttype (comma_tokens ! 9) = COMMA"
    "ttype (comma_tokens ! 10) = BOOLEAN" "ttype (comma_tokens ! 11) = COMMA"
    "ttype (comma_tokens ! 12) = NULL" "ttype (comma_tokens ! 13) = COMMA"
    "ttype (comma_tokens ! 14) = NUMBER" "ttype (comma_tokens ! 15) = COMMA"
    "ttype (comma_tokens ! 16) = NUMBER" "ttype (comma_tokens ! 17) = COMMA"
    by (simp_all add: comma_tokens_def Tok_def)
  have strs: "get_string comma_text (comma_tokens ! 10) = ''true''"
    "get_string comma_text (comma_tokens ! 14) = ''1.5''"
    "get_string comma_text (comma_tokens ! 16) = ''2''"
    by (simp_all add: comma_tokens_def comma_text_def Tok_def get_string_def substr_def)
  have arr: "parse_array comma_tokens comma_text 2 [] = Inr ([VInt 1], 4)"
    by (simp add: comma_tokens_def comma_text_def parse_eval py_float_1 py_int_small)
  have obj: "parse_object comma_tokens comma_text 6 [] {} = Inr ([], 7)"
    by (simp add: comma_tokens_def comma_text_def parse_eval)
  have lens: "1 < length comma_tokens" "4 < length comma_tokens" "5 < length comma_tokens"
    "7 < length comma_tokens" "8 + 1 < length comma_tokens" "10 + 1 < length comma_tokens"
    "12 + 1 < length comma_tokens" "14 + 1 < length comma_tokens"
    "16 + 1 < length comma_tokens"
    by (simp_all add: len)
  have arr1: "parse_array comma_tokens comma_text (1 + 1) [] = Inr ([VInt 1], 4)"
    unfolding one_add_one by (rule arr)
  have obj1: "parse_object comma_tokens comma_text (5 + 1) [] {} = Inr ([], 7)"
    using obj by simp
  have fl14: "py_float (get_string comma_text (comma_tokens ! 14)) = Inr (Finite False (3 / 2))"
    "CHR ''.'' \<in> set (get_string comma_text (comma_tokens ! 14))"
    using strs py_float_1_5 by simp_all
  have fl16: "py_float (get_string comma_text (comma_tokens ! 16)) = Inr (Finite False 2)"
    "CHR ''.'' \<notin> set (get_string comma_text (comma_tokens ! 16))"
    "py_int (Finite False 2) = Inr 2"
    using strs py_float_2 py_int_small by simp_all
  have ty1: "ttype (comma_tokens ! 1) = L_BRACKET"
    by (simp add: comma_tokens_def Tok_def)
  have h1: "1 < length comma_tokens \<and> ttype (comma_tokens ! 1) = L_BRACKET \<and> parse_array comma_tokens comma_text (1 + 1) [] = Inr ([VInt 1], 4) \<and> 4 < length comma_tokens"
    using lens ty ty1 arr1 obj1 fl14 fl16 by blast
  from parse_value_consumes_comma[where tokens = comma_tokens and json = comma_text
         and i = 1 and arr = "[VInt 1]" and k = 4] h1
  have "parse_value comma_tokens comma_text 1 = Inr (VArray [VInt 1], if ttype (comma_tokens ! 4) = COMMA then 4 + 1 else 4)"
    by blast
  with ty have v1: "parse_value comma_tokens comma_text 1 = Inr (VArray [VInt 1], 5)"
    by simp
  have h5: "5 < length comma_tokens \<and> ttype (comma_tokens ! 5) = L_CURLY \<and> parse_object comma_tokens comma_text (5 + 1) [] {} = Inr ([], 7) \<and> 7 < length comma_tokens"
    using lens ty ty1 arr1 obj1 fl14 fl16 by blast
  from parse_value_consumes_comma[where tokens = comma_tokens and json = comma_text
         and i = 5 and obj = "[]" and k = 7] h5
  have "parse_value comma_tokens comma_text 5 = Inr (VObject [], if ttype (comma_tokens ! 7) = COMMA then 7 + 1 else 7)"
    by blast
  with ty have v5: "parse_value comma_tokens comma_text 5 = Inr (VObject [], 8)"
    by simp
  have h8: "8 + 1 < length comma_tokens \<and> ttype (comma_tokens ! 8) = STRING"
    using lens ty ty1 arr1 obj1 fl14 fl16 by blast
  from parse_value_consumes_comma[where tokens = comma_tokens and json = comma_text
         and i = 8] h8
  have "parse_value comma_tokens comma_text 8 = Inr (VStr (normalized_string comma_text (comma_tokens ! 8)), if ttype (comma_tokens ! (8 + 1)) = COMMA then 8 + 2 else 8 + 1)"
    by blast
  with ty have v8: "parse_value comma_tokens comma_text 8 = Inr (VStr (normalized_string comma_text (comma_tokens ! 8)), 10)"
    by simp
  have h10: "10 + 1 < length comma_tokens \<and> ttype (comma_tokens ! 10) = BOOLEAN"
    using lens ty ty1 arr1 obj1 fl14 fl16 by blast
  from parse_value_consumes_comma[where tokens = comma_tokens and json = comma_text
         and i = 10] h10
  have "parse_value comma_tokens comma_text 10 = Inr (VBool (get_string comma_text (comma_tokens ! 10) = ''true''), if ttype (comma_tokens ! (10 + 1)) = COMMA then 10 + 2 else 10 + 1)"
    by blast
  with ty strs have v10: "parse_value comma_tokens comma_text 10 = Inr (VBool True, 12)"
    by simp
  have h12: "12 + 1 < length comma_tokens \<and> ttype (comma_tokens ! 12) = NULL"
    using lens ty ty1 arr1 obj1 fl14 fl16 by blast
  from parse_value_consumes_comma[where tokens = comma_tokens and json = comma_text
         and i = 12] h12
  have "parse_value comma_tokens comma_text 12 = Inr (VNone, if ttype (comma_tokens ! (12 + 1)) = COMMA then 12 + 2 else 12 + 1)"
    by blast
  with ty have v12: "parse_value comma_tokens comma_text 12 = Inr (VNone, 14)"
    by simp
  have h14: "14 + 1 < length comma_tokens \<and> ttype (comma_tokens ! 14) = NUMBER \<and> py_float (get_string comma_text (comma_tokens ! 14)) = Inr (Finite False (3 / 2)) \<and> CHR ''.'' \<in> set (get_string comma_text (comma_tokens ! 14))"
    using lens ty ty1 arr1 obj1 fl14 fl16 by blast
  from parse_value_consumes_comma[where tokens = comma_tokens and json = comma_text
         and i = 14 and f = "Finite False (3 / 2)"] h14
  have "parse_value comma_tokens comma_text 14 = Inr (VFloat (Finite False (3 / 2)), if ttype (comma_tokens ! (14 + 1)) = COMMA then 14 + 2 else 14 + 1)"
    by blast
  with ty have v14: "parse_value comma_tokens comma_text 14 = Inr (VFloat (Finite False (3 / 2)), 16)"
    by simp
  have h16: "16 + 1 < length comma_tokens \<and> ttype (comma_tokens ! 16) = NUMBER \<and> py_float (get_string comma_text (comma_tokens ! 16)) = Inr (Finite False 2) \<and> CHR ''.'' \<notin> set (get_string comma_text (comma_tokens ! 16)) \<and> py_int (Finite False 2) = Inr 2"
    using lens ty ty1 arr1 obj1 fl14 fl16 by blast
  from parse_value_consumes_comma[where tokens = comma_tokens and json = comma_text
         and i = 16 and f = "Finite False 2" and n = 2] h16
  have "parse_value comma_tokens comma_text 16 = Inr (VInt 2, if ttype (comma_tokens ! (16 + 1)) = COMMA then 16 + 2 else 16 + 1)"
    by blast
  with ty have v16: "parse_value comma_tokens comma_text 16 = Inr (VInt 2, 18)"
    by simp
  from old lex_comma_text arr obj v1 v5 v8 v10 v12 v14 v16 show ?thesis
    by blast
qed

section \<open>Numbers\<close>

lemma loads_1_5: "loads ''[1.5]'' = Inr (VArray [VFloat (Finite False (3 / 2))])"
proof -
  have "lex ''[1.5]'' = Inr [Tok L_BRACKET 0 1, Tok NUMBER 1 4, Tok R_BRACKET 4 5]"
    by (simp add: lex_eval)
  then show ?thesis
    by (simp add: loads_def parse_def parse_eval py_float_1_5)
qed

lemma loads_150: "loads ''[150]'' = Inr (VArray [VInt 150])"
proof -
  have "lex ''[150]'' = Inr [Tok L_BRACKET 0 1, Tok NUMBER 1 4, Tok R_BRACKET 4 5]"
    by (simp add: lex_eval)
  then show ?thesis
    by (simp add: loads_def parse_def parse_eval py_float_150 py_int_examples)
qed

lemma loads_1e2: "loads ''[1e2]'' = Inr (VArray [VInt 100])"
proof -
  have "lex ''[1e2]'' = Inr [Tok L_BRACKET 0 1, Tok NUMBER 1 4, Tok R_BRACKET 4 5]"
    by (simp add: lex_eval)
  then show ?thesis
    by (simp add: loads_def parse_def parse_eval py_float_1e2 py_int_examples)
qed

lemma parse_value_number:
  assumes "i < length tokens" "ttype (tokens ! i) = NUMBER"
    and "parse_value tokens json i = Inr (v, i')"
  shows "\<exists>f. py_float (get_string json (tokens ! i)) = Inr f \<and>
           (if CHR ''.'' \<in> set (get_string json (tokens ! i)) then v = VFloat f
            else \<exists>n. py_int f = Inr n \<and> v = VInt n)"
  using assms
  by (auto simp: parse_value.simps py_index_def split: sum.splits if_splits
           dest!: skip_comma_result)

text \<open>
  C1.  For a Number token the parser takes the text of the span, converts it with
  \<^verbatim>\<open>float\<close> and looks for a point in the text: with a point the value is that float,
  without one it is \<^verbatim>\<open>int\<close> of that float.  So \<^verbatim>\<open>[1.5]\<close> gives the float 1.5,
  \<^verbatim>\<open>[150]\<close> the integer 150 and \<^verbatim>\<open>[1e2]\<close> the integer 100.
\<close>

theorem parse_value_number_classification:
  "(i < length tokens \<and> ttype (tokens ! i) = NUMBER \<and> parse_value tokens json i = Inr (v, i')
      \<longrightarrow> (\<exists>f. py_float (get_string json (tokens ! i)) = Inr f \<and>
             (if CHR ''.'' \<in> set (get_string json (tokens ! i)) then v = VFloat f
              else \<exists>n. py_int f = Inr n \<and> v = VInt n)))
   \<and> loads ''[1.5]'' = Inr (VArray [VFloat (Finite False (3 / 2))])
   \<and> loads ''[150]'' = Inr (VArray [VInt 150])
   \<and> loads ''[1e2]'' = Inr (VArray [VInt 100])"
  using parse_value_number[of i tokens json v i'] loads_1_5 loads_150 loads_1e2
  by blast

theorem parse_value_number_classification_witness:
  "(1::nat) < length [Tok L_BRACKET 0 1, Tok NUMBER 1 4, Tok R_BRACKET 4 5]
   \<and> ttype ([Tok L_BRACKET 0 1, Tok NUMBER 1 4, Tok R_BRACKET 4 5] ! 1) = NUMBER
   \<and> parse_value [Tok L_BRACKET 0 1, Tok NUMBER 1 4, Tok R_BRACKET 4 5] ''[1e2]'' 1
        = Inr (VInt 100, 2)
   \<and> (\<exists>f. py_float (get_string ''[1e2]'' ([Tok L_BRACKET 0 1, Tok NUMBER 1 4, Tok R_BRACKET 4 5] ! 1))
              = Inr f \<and> py_int f = Inr 100)"
proof -
  let ?ts = "[Tok L_BRACKET 0 1, Tok NUMBER 1 4, Tok R_BRACKET 4 5]"
  have a: "(1::nat) < length ?ts \<and> ttype (?ts ! 1) = NUMBER"
    by (simp add: Tok_def)
  have b: "parse_value ?ts ''[1e2]'' 1 = Inr (VInt 100, 2)"
    by (simp add: parse_eval py_float_1e2 py_int_examples)
  have c: "CHR ''.'' \<notin> set (get_string ''[1e2]'' (?ts ! 1))"
    by (simp add: get_string_def substr_def Tok_def)
  from parse_value_number_classification[of 1 ?ts "''[1e2]''" "VInt 100" 2] a b c
  show ?thesis by auto
qed

section \<open>Truncated texts\<close>













section \<open>What an error of the decoder carries\<close>


definition no_context :: "error \<Rightarrow> bool" where
  "no_context e =
     (case e of
        ValueError m \<Rightarrow> (case m of Plain s \<Rightarrow> True | Context msg prior_tokens k t \<Rightarrow> False)
      | IndexError \<Rightarrow> True
      | AttributeError \<Rightarrow> True
      | OverflowError \<Rightarrow> True
      | AssertionError \<Rightarrow> True)"












lemma no_context_simps [simp]:
  "no_context IndexError" "no_context OverflowError" "no_context AssertionError"
  "no_context AttributeError" "no_context (ValueError (Plain s))"
  "\<not> no_context (ValueError (Context msg prior_tokens k t))"
  by (simp_all add: no_context_def)
















end
